theory Spec2Isabelle
  imports Main
begin

section \<open>The model detail page of ModelVault (src/frontend/Model.tsx)\<close>

text \<open>
  The page is two React components: \<open>Model\<close>, which fetches one record by slug and keeps
  it in a state cell, and \<open>ImageGallery\<close>, which keeps the index of the image on show and
  moves it with two buttons, a strip of thumbnails and the arrow keys. The embedding below
  follows the source function by function. React's part is written out as state passing:
  a component's state cells live as long as the component stays mounted, an effect with an
  empty dependency list runs once at mount and its cleanup once at unmount, and a closure
  keeps the props of the render that made it. The scrolling of the thumbnail strip
  (the effect on \<open>selectedImage\<close> and \<open>scrollThumbnails\<close>) reads and writes the DOM only and
  never the index; it is left out, as are the info card, the description and the file list.
\<close>

subsection \<open>JavaScript numbers\<close>

text \<open>
  \<open>selectedImage\<close> is a JavaScript number. The values the gallery can reach are integers
  and \<open>NaN\<close>: the cell starts at 0, a thumbnail stores an array index, and the two
  updaters add or subtract 1, add an array length and take \<open>%\<close> by an array length.
  Array lengths are below \<open>2^32\<close>, so this arithmetic is exact on doubles and is modelled on
  \<open>int\<close>; the sign of a zero result is not kept (\<open>-0\<close> indexes an array like \<open>0\<close>).
  \<open>%\<close> is the truncating remainder, whose result has the sign of the dividend, and
  \<open>x % 0\<close> is \<open>NaN\<close>; it raises nothing.
\<close>

datatype jsnum = Number int | NaN

fun js_add :: "jsnum \<Rightarrow> jsnum \<Rightarrow> jsnum" where
  "js_add (Number a) (Number b) = Number (a + b)"
| "js_add _ _ = NaN"

fun js_sub :: "jsnum \<Rightarrow> jsnum \<Rightarrow> jsnum" where
  "js_sub (Number a) (Number b) = Number (a - b)"
| "js_sub _ _ = NaN"

fun js_rem :: "jsnum \<Rightarrow> jsnum \<Rightarrow> jsnum" where
  "js_rem (Number a) (Number b) =
     (if b = 0 then NaN else Number (sgn a * (\<bar>a\<bar> mod \<bar>b\<bar>)))"
| "js_rem _ _ = NaN"

subsection \<open>The model record\<close>

text \<open>
  Modelled from the spec: \<open>DetailedModelResponse\<close> is declared in \<open>./bindings\<close>, which is
  not part of the sources at hand. The fields are those the page reads, with the shape the
  specification's data model gives them: an ordered sequence of image references, an
  ordered sequence of file descriptors and scalar metadata.
\<close>

record file_response =
  file_path :: string
  preview_image :: string
  file_hash :: "string option"
  date_added :: "string option"

record detailed_model =
  title :: string
  author :: string
  license :: string
  origin :: string
  package_name :: string
  images :: "string list"
  files :: "file_response list"

definition image_count :: "detailed_model \<Rightarrow> jsnum" where
  \<comment> \<open>\<open>model.images.length\<close>\<close>
  "image_count m = Number (int (length (images m)))"

subsection \<open>ImageGallery: the two updaters\<close>

text \<open>
  \<open>nextImage\<close> and \<open>previousImage\<close> hand an updater to \<open>setSelectedImage\<close>; the
  functions below are those updaters, with the \<open>model\<close> their closure holds as first
  argument.
\<close>

definition nextImage :: "detailed_model \<Rightarrow> jsnum \<Rightarrow> jsnum" where
  "nextImage m prev = js_rem (js_add prev (Number 1)) (image_count m)"

definition previousImage :: "detailed_model \<Rightarrow> jsnum \<Rightarrow> jsnum" where
  "previousImage m prev =
     js_rem (js_add (js_sub prev (Number 1)) (image_count m)) (image_count m)"

subsection \<open>ImageGallery: the keydown listener\<close>

text \<open>
  The keyboard effect has the dependency list \<open>[]\<close>: \<open>handleKeyDown\<close> is created and
  registered in the first render only. It calls the \<open>nextImage\<close> and \<open>previousImage\<close> of
  that render, so the \<open>model\<close> it works with is the one of the first render
  (\<open>closure_model\<close>). A function value has an identity, which \<open>removeEventListener\<close>
  compares; it is a number here.
\<close>

record key_listener =
  listener_id :: nat
  closure_model :: detailed_model

definition handleKeyDown :: "key_listener \<Rightarrow> string \<Rightarrow> jsnum \<Rightarrow> jsnum" where
  "handleKeyDown h key prev =
     (if key = ''ArrowLeft'' then previousImage (closure_model h) prev
      else if key = ''ArrowRight'' then nextImage (closure_model h) prev
      else prev)"

record image_gallery =
  selectedImage :: jsnum
  keydown_handler :: key_listener

subsection \<open>Model: the fetch\<close>

text \<open>
  A promise settles with a value or with an error: \<open>js_error + 'a\<close>. \<open>fetch\<close> rejects on a
  network failure; \<open>response.json()\<close> rejects when the body is not JSON (\<open>body = None\<close>).
  A body that parses is taken at its declared type, as the source does.
\<close>

datatype js_error = TypeError | Error string | SyntaxError

record response =
  ok :: bool
  body :: "detailed_model option"

record view =
  mounted :: bool
  model :: "detailed_model option"
  gallery :: "image_gallery option"
  window_keydown :: "key_listener list"
  console :: "(string \<times> js_error) list"
  fresh_id :: nat

definition initial_view :: view where
  \<comment> \<open>\<open>Model\<close> after its first render: \<open>useState()\<close> holds \<open>undefined\<close>, nothing is rendered\<close>
  "initial_view =
     \<lparr>mounted = True, model = None, gallery = None, window_keydown = [],
      console = [], fresh_id = 0\<rparr>"

definition mount_gallery :: "detailed_model \<Rightarrow> view \<Rightarrow> view" where
  \<comment> \<open>first render of \<open>ImageGallery\<close>: \<open>useState(0)\<close>, then the keyboard effect\<close>
  "mount_gallery m v =
     (let h = \<lparr>listener_id = fresh_id v, closure_model = m\<rparr>
      in v\<lparr>gallery := Some \<lparr>selectedImage = Number 0, keydown_handler = h\<rparr>,
            window_keydown := window_keydown v @ [h],
            fresh_id := Suc (fresh_id v)\<rparr>)"

definition setModel :: "detailed_model \<Rightarrow> view \<Rightarrow> view" where
  \<comment> \<open>the state cell is written and \<open>Model\<close> renders again: \<open>{model && ... <ImageGallery model={model} />}\<close>
      mounts the gallery when there is none and otherwise hands the mounted one its new
      prop. A component that has left the tree ignores the call.\<close>
  "setModel m v =
     (if \<not> mounted v then v
      else (case gallery v of
              None \<Rightarrow> mount_gallery m (v\<lparr>model := Some m\<rparr>)
            | Some g \<Rightarrow> v\<lparr>model := Some m\<rparr>))"

definition console_error :: "js_error \<Rightarrow> view \<Rightarrow> view" where
  "console_error e v = v\<lparr>console := console v @ [(''Fetch error:'', e)]\<rparr>"

definition then_ok :: "js_error + response \<Rightarrow> js_error + detailed_model" where
  \<comment> \<open>the first \<open>.then\<close>: throw unless \<open>response.ok\<close>, else \<open>response.json()\<close>\<close>
  "then_ok p =
     (case p of
        Inl e \<Rightarrow> Inl e
      | Inr r \<Rightarrow>
          if \<not> ok r then Inl (Error ''Network response was not ok'')
          else (case body r of None \<Rightarrow> Inl SyntaxError | Some m \<Rightarrow> Inr m))"

definition then_setModel :: "js_error + detailed_model \<Rightarrow> view \<Rightarrow> (js_error + unit) \<times> view" where
  \<comment> \<open>the second \<open>.then\<close>\<close>
  "then_setModel p v =
     (case p of Inl e \<Rightarrow> (Inl e, v) | Inr m \<Rightarrow> (Inr (), setModel m v))"

definition catch_log :: "(js_error + unit) \<times> view \<Rightarrow> (js_error + unit) \<times> view" where
  \<comment> \<open>the \<open>.catch\<close>\<close>
  "catch_log pv =
     (case pv of (Inl e, v) \<Rightarrow> (Inr (), console_error e v) | (Inr u, v) \<Rightarrow> (Inr u, v))"

definition getModels :: "js_error + response \<Rightarrow> view \<Rightarrow> (js_error + unit) \<times> view" where
  \<comment> \<open>the promise chain of \<open>getModels\<close>, run on what \<open>fetch\<close> settled with\<close>
  "getModels fetched v = catch_log (then_setModel (then_ok fetched) v)"

subsection \<open>Events\<close>

datatype event =
    FetchSettled "js_error + response"
  | ClickNext
  | ClickPrevious
  | ClickThumbnail nat
  | KeyDown string
  | Unmount

definition setSelectedImage :: "(jsnum \<Rightarrow> jsnum) \<Rightarrow> view \<Rightarrow> view" where
  "setSelectedImage f v =
     (case gallery v of
        None \<Rightarrow> v
      | Some g \<Rightarrow> v\<lparr>gallery := Some (g\<lparr>selectedImage := f (selectedImage g)\<rparr>)\<rparr>)"

definition click_next :: "view \<Rightarrow> view" where
  \<comment> \<open>\<open>onClick={nextImage}\<close>: the \<open>nextImage\<close> of the current render\<close>
  "click_next v =
     (case model v of None \<Rightarrow> v | Some m \<Rightarrow> setSelectedImage (nextImage m) v)"

definition click_previous :: "view \<Rightarrow> view" where
  "click_previous v =
     (case model v of None \<Rightarrow> v | Some m \<Rightarrow> setSelectedImage (previousImage m) v)"

definition click_thumbnail :: "nat \<Rightarrow> view \<Rightarrow> view" where
  \<comment> \<open>\<open>model.images.map((img, index) => ... onClick={() => setSelectedImage(index)}\<close>:
      there is one button for each index of the array and no other\<close>
  "click_thumbnail k v =
     (case model v of
        None \<Rightarrow> v
      | Some m \<Rightarrow>
          if k < length (images m) then setSelectedImage (\<lambda>_. Number (int k)) v else v)"

definition run_listener :: "string \<Rightarrow> key_listener \<Rightarrow> view \<Rightarrow> view" where
  \<comment> \<open>a listener writes the state cell of the gallery that registered it\<close>
  "run_listener key h v =
     (case gallery v of
        None \<Rightarrow> v
      | Some g \<Rightarrow>
          if listener_id (keydown_handler g) = listener_id h
          then setSelectedImage (handleKeyDown h key) v else v)"

definition key_down :: "string \<Rightarrow> view \<Rightarrow> view" where
  \<comment> \<open>the window dispatches a keydown event to its listeners, in order of registration\<close>
  "key_down key v = fold (run_listener key) (window_keydown v) v"

definition unmount :: "view \<Rightarrow> view" where
  \<comment> \<open>the page leaves the tree: the gallery's effect cleanup runs
      \<open>window.removeEventListener("keydown", handleKeyDown)\<close> and the state cells are gone\<close>
  "unmount v =
     v\<lparr>mounted := False, model := None, gallery := None,
       window_keydown :=
         (case gallery v of
            None \<Rightarrow> window_keydown v
          | Some g \<Rightarrow>
              filter (\<lambda>h. listener_id h \<noteq> listener_id (keydown_handler g)) (window_keydown v))\<rparr>"

fun step :: "event \<Rightarrow> view \<Rightarrow> view" where
  "step (FetchSettled p) v = snd (getModels p v)"
| "step ClickNext v = click_next v"
| "step ClickPrevious v = click_previous v"
| "step (ClickThumbnail k) v = click_thumbnail k v"
| "step (KeyDown key) v = key_down key v"
| "step Unmount v = unmount v"

definition run :: "event list \<Rightarrow> view \<Rightarrow> view" where
  "run evs v = fold step evs v"

fun is_selection :: "event \<Rightarrow> bool" where
  "is_selection ClickNext = True"
| "is_selection ClickPrevious = True"
| "is_selection (ClickThumbnail k) = True"
| "is_selection (KeyDown key) = True"
| "is_selection _ = False"

definition loaded :: "detailed_model \<Rightarrow> js_error + response" where
  \<comment> \<open>a fetch that settles with a 2xx response whose body is the record \<open>m\<close>\<close>
  "loaded m = Inr \<lparr>ok = True, body = Some m\<rparr>"

subsection \<open>What is rendered\<close>

definition index_images :: "string list \<Rightarrow> jsnum \<Rightarrow> string option" where
  \<comment> \<open>\<open>model.images[selectedImage]\<close>; \<open>None\<close> is \<open>undefined\<close>\<close>
  "index_images xs sel =
     (case sel of
        NaN \<Rightarrow> None
      | Number i \<Rightarrow> if 0 \<le> i \<and> i < int (length xs) then Some (xs ! nat i) else None)"

definition main_image_src :: "string \<Rightarrow> detailed_model \<Rightarrow> jsnum \<Rightarrow> string" where
  \<comment> \<open>the template literal with \<open>BACKEND_BASE_URL\<close> (of \<open>./lib/api\<close>, a parameter here)\<close>
  "main_image_src base m sel =
     base @ (case index_images (images m) sel of None \<Rightarrow> ''undefined'' | Some s \<Rightarrow> s)"

record gallery_markup =
  main_src :: string
  thumbnail_srcs :: "string list"

definition render_Model :: "string \<Rightarrow> view \<Rightarrow> gallery_markup option" where
  \<comment> \<open>\<open>{model && (... <ImageGallery model={model} /> ...)}\<close>: the gallery part of the output,
      \<open>None\<close> for the empty fragment\<close>
  "render_Model base v =
     (case model v of
        None \<Rightarrow> None
      | Some m \<Rightarrow>
          (case gallery v of
             None \<Rightarrow> None
           | Some g \<Rightarrow>
               Some \<lparr>main_src = main_image_src base m (selectedImage g),
                     thumbnail_srcs = map (\<lambda>img. base @ img) (images m)\<rparr>))"

subsection \<open>Predicates used in the statements\<close>

definition valid_index :: "detailed_model \<Rightarrow> jsnum \<Rightarrow> bool" where
  \<comment> \<open>the number is an index of \<open>model.images\<close>\<close>
  "valid_index m sel =
     (case sel of NaN \<Rightarrow> False | Number i \<Rightarrow> 0 \<le> i \<and> i < int (length (images m)))"

definition listening :: "detailed_model \<Rightarrow> view \<Rightarrow> bool" where
  \<comment> \<open>the page shows a model, and the one keydown listener of the window is that of the
      mounted gallery, made in a render whose \<open>model\<close> was \<open>m0\<close>\<close>
  "listening m0 v =
     (mounted v \<and> model v \<noteq> None \<and>
      (case gallery v of
         None \<Rightarrow> False
       | Some g \<Rightarrow>
           window_keydown v = [keydown_handler g] \<and> closure_model (keydown_handler g) = m0))"

definition showing :: "detailed_model \<Rightarrow> view \<Rightarrow> bool" where
  \<comment> \<open>the gallery was mounted with \<open>m\<close>, still shows \<open>m\<close>, and its index is one of \<open>m\<close>'s\<close>
  "showing m v =
     (listening m v \<and> model v = Some m \<and>
      (case gallery v of None \<Rightarrow> False | Some g \<Rightarrow> valid_index m (selectedImage g)))"

definition fetch_failed :: "js_error + response \<Rightarrow> bool" where
  \<comment> \<open>network error, status outside 2xx, or a body that is not JSON\<close>
  "fetch_failed p = (case p of Inl e \<Rightarrow> True | Inr r \<Rightarrow> \<not> ok r \<or> body r = None)"

subsection \<open>Sample records\<close>

definition gallery_of :: "string list \<Rightarrow> detailed_model" where
  "gallery_of imgs =
     \<lparr>title = ''Benchy'', author = ''anon'', license = ''CC-BY'',
      origin = ''https://example.org'', package_name = ''benchy'',
      images = imgs, files = []\<rparr>"

definition three_images :: detailed_model where
  "three_images = gallery_of [''/a.png'', ''/b.png'', ''/c.png'']"

definition five_images :: detailed_model where
  "five_images = gallery_of [''/p.png'', ''/q.png'', ''/r.png'', ''/s.png'', ''/t.png'']"

definition one_image :: detailed_model where
  "one_image = gallery_of [''/z.png'']"

definition no_images :: detailed_model where
  "no_images = gallery_of []"

section \<open>Arithmetic of the updaters\<close>

lemma js_rem_nonneg:
  "0 \<le> a \<Longrightarrow> 0 < b \<Longrightarrow> js_rem (Number a) (Number b) = Number (a mod b)"
  by (cases "a = 0") simp_all

lemma nextImage_Number:
  "0 \<le> i \<Longrightarrow> 0 < length (images m) \<Longrightarrow>
   nextImage m (Number i) = Number ((i + 1) mod int (length (images m)))"
  by (simp add: nextImage_def image_count_def js_rem_nonneg)

lemma previousImage_Number:
  assumes "0 \<le> i" and "0 < length (images m)"
  shows "previousImage m (Number i) =
         Number ((i - 1 + int (length (images m))) mod int (length (images m)))"
proof -
  have "0 \<le> i - 1 + int (length (images m))" and "0 < int (length (images m))"
    using assms by linarith+
  then have "js_rem (Number (i - 1 + int (length (images m)))) (Number (int (length (images m)))) =
             Number ((i - 1 + int (length (images m))) mod int (length (images m)))"
    by (rule js_rem_nonneg)
  then show ?thesis
    by (simp add: previousImage_def image_count_def)
qed

lemma wrap_forward:
  fixes i n :: int
  assumes "0 \<le> i" and "i < n"
  shows "(i + 1) mod n = (if i = n - 1 then 0 else i + 1)"
proof (cases "i = n - 1")
  case True
  then show ?thesis by simp
next
  case False
  then have "0 \<le> i + 1" and "i + 1 < n" using assms by linarith+
  then have "(i + 1) mod n = i + 1" by (rule mod_pos_pos_trivial)
  then show ?thesis using False by simp
qed

lemma wrap_back:
  fixes i n :: int
  assumes "0 \<le> i" and "i < n"
  shows "(i - 1 + n) mod n = (if i = 0 then n - 1 else i - 1)"
proof (cases "i = 0")
  case True
  have "0 \<le> n - 1" and "n - 1 < n" using assms True by linarith+
  then have "(n - 1) mod n = n - 1" by (rule mod_pos_pos_trivial)
  moreover have "i - 1 + n = n - 1" using True by linarith
  moreover have "(if i = 0 then n - 1 else i - 1) = n - 1" using True by simp
  ultimately show ?thesis by (simp only:)
next
  case False
  then have "0 \<le> i - 1" and "i - 1 < n" using assms by linarith+
  then have "(i - 1) mod n = i - 1" by (rule mod_pos_pos_trivial)
  moreover have "(i - 1 + n) mod n = (i - 1) mod n" by (rule mod_add_self2)
  moreover have "(if i = 0 then n - 1 else i - 1) = i - 1" using False by simp
  ultimately show ?thesis by (simp only:)
qed

lemma nextImage_wrap:
  assumes "0 < length (images m)" and "0 \<le> i" and "i < int (length (images m))"
  shows "nextImage m (Number i) = Number (if i = int (length (images m)) - 1 then 0 else i + 1)"
  using assms by (simp only: nextImage_Number wrap_forward)

lemma previousImage_wrap:
  assumes "0 < length (images m)" and "0 \<le> i" and "i < int (length (images m))"
  shows "previousImage m (Number i) = Number (if i = 0 then int (length (images m)) - 1 else i - 1)"
  using assms by (simp only: previousImage_Number wrap_back)

lemma nextImage_funpow:
  assumes "0 \<le> i" and "i < int (length (images m))"
  shows "(nextImage m ^^ k) (Number i) = Number ((i + int k) mod int (length (images m)))"
proof (induction k)
  case 0
  show ?case using assms by simp
next
  case (Suc k)
  have pos: "0 < length (images m)" using assms by auto
  have "0 \<le> (i + int k) mod int (length (images m))" using pos by simp
  then have "nextImage m (Number ((i + int k) mod int (length (images m)))) =
             Number (((i + int k) mod int (length (images m)) + 1) mod int (length (images m)))"
    using pos by (rule nextImage_Number)
  also have "((i + int k) mod int (length (images m)) + 1) mod int (length (images m)) =
             (i + int k + 1) mod int (length (images m))"
    by (rule mod_add_left_eq)
  finally show ?case using Suc by (simp add: ac_simps)
qed

lemma valid_index_Number:
  "valid_index m sel \<longleftrightarrow> (\<exists>i. sel = Number i \<and> 0 \<le> i \<and> i < int (length (images m)))"
  by (cases sel) (simp_all add: valid_index_def)

lemma valid_index_nextImage:
  assumes "valid_index m sel"
  shows "valid_index m (nextImage m sel)"
proof -
  from assms obtain i where i: "sel = Number i" "0 \<le> i" "i < int (length (images m))"
    by (auto simp: valid_index_Number)
  then have pos: "0 < length (images m)" by auto
  have "nextImage m sel = Number ((i + 1) mod int (length (images m)))"
    unfolding i(1) using i(2) pos by (rule nextImage_Number)
  then show ?thesis using pos by (simp add: valid_index_Number)
qed

lemma valid_index_previousImage:
  assumes "valid_index m sel"
  shows "valid_index m (previousImage m sel)"
proof -
  from assms obtain i where i: "sel = Number i" "0 \<le> i" "i < int (length (images m))"
    by (auto simp: valid_index_Number)
  then have pos: "0 < length (images m)" by auto
  have "previousImage m sel =
        Number ((i - 1 + int (length (images m))) mod int (length (images m)))"
    unfolding i(1) using i(2) pos by (rule previousImage_Number)
  then show ?thesis using pos by (simp add: valid_index_Number)
qed

lemma valid_index_handleKeyDown:
  "closure_model h = m \<Longrightarrow> valid_index m sel \<Longrightarrow> valid_index m (handleKeyDown h key sel)"
  by (simp add: handleKeyDown_def valid_index_nextImage valid_index_previousImage)

text \<open>
  C2. With at least one image and the index \<open>i\<close> on one of them, \<open>nextImage\<close> moves the
  index to \<open>i + 1\<close>, and to 0 from the last image; the new index is again an index of
  the array.
\<close>

theorem nextImage_advances_and_wraps:
  assumes "0 < length (images m)" and "0 \<le> i" and "i < int (length (images m))"
  shows "\<exists>j. nextImage m (Number i) = Number j \<and>
             j = (if i = int (length (images m)) - 1 then 0 else i + 1) \<and>
             0 \<le> j \<and> j < int (length (images m))"
proof -
  have "nextImage m (Number i) = Number (if i = int (length (images m)) - 1 then 0 else i + 1)"
    using assms by (rule nextImage_wrap)
  moreover have "0 \<le> (if i = int (length (images m)) - 1 then 0 else i + 1)"
    and "(if i = int (length (images m)) - 1 then 0 else i + 1) < int (length (images m))"
    using assms by auto
  ultimately show ?thesis by blast
qed

theorem nextImage_advances_and_wraps_witness:
  "0 < length (images three_images) \<and> (0::int) \<le> 2 \<and> 2 < int (length (images three_images)) \<and>
   nextImage three_images (Number 0) = Number 1 \<and>
   nextImage three_images (Number 1) = Number 2 \<and>
   nextImage three_images (Number 2) = Number 0"
  using nextImage_advances_and_wraps [of three_images 0]
    nextImage_advances_and_wraps [of three_images 1]
    nextImage_advances_and_wraps [of three_images 2]
  by (simp add: three_images_def gallery_of_def)

text \<open>
  C3. With at least one image and the index \<open>i\<close> on one of them, \<open>previousImage\<close> moves
  the index to \<open>i - 1\<close>, and to the last image from 0; the new index is again an index
  of the array.
\<close>

theorem previousImage_retreats_and_wraps:
  assumes "0 < length (images m)" and "0 \<le> i" and "i < int (length (images m))"
  shows "\<exists>j. previousImage m (Number i) = Number j \<and>
             j = (if i = 0 then int (length (images m)) - 1 else i - 1) \<and>
             0 \<le> j \<and> j < int (length (images m))"
proof -
  have "previousImage m (Number i) = Number (if i = 0 then int (length (images m)) - 1 else i - 1)"
    using assms by (rule previousImage_wrap)
  moreover have "0 \<le> (if i = 0 then int (length (images m)) - 1 else i - 1)"
    and "(if i = 0 then int (length (images m)) - 1 else i - 1) < int (length (images m))"
    using assms by auto
  ultimately show ?thesis by blast
qed

theorem previousImage_retreats_and_wraps_witness:
  "0 < length (images three_images) \<and> (0::int) \<le> 0 \<and> 0 < int (length (images three_images)) \<and>
   previousImage three_images (Number 0) = Number 2 \<and>
   previousImage three_images (Number 2) = Number 1"
  using previousImage_retreats_and_wraps [of three_images 0]
    previousImage_retreats_and_wraps [of three_images 2]
  by (simp add: three_images_def gallery_of_def)

text \<open>
  C5. With at least one image and the index \<open>i\<close> on one of them, \<open>nextImage\<close> followed
  by \<open>previousImage\<close> gives \<open>i\<close> back, and so does \<open>previousImage\<close> followed by
  \<open>nextImage\<close>.
\<close>

theorem next_previous_inverse:
  assumes "1 \<le> length (images m)" and "0 \<le> i" and "i < int (length (images m))"
  shows "previousImage m (nextImage m (Number i)) = Number i \<and>
         nextImage m (previousImage m (Number i)) = Number i"
proof -
  let ?n = "int (length (images m))"
  have pos: "0 < length (images m)" using assms(1) by linarith
  define j where "j = (if i = ?n - 1 then 0 else i + 1)"
  define k where "k = (if i = 0 then ?n - 1 else i - 1)"
  have j: "0 \<le> j" "j < ?n" and k: "0 \<le> k" "k < ?n"
    using assms by (auto simp: j_def k_def)
  have "nextImage m (Number i) = Number j"
    unfolding j_def using pos assms(2,3) by (rule nextImage_wrap)
  moreover have "previousImage m (Number j) = Number (if j = 0 then ?n - 1 else j - 1)"
    using pos j by (rule previousImage_wrap)
  moreover have "(if j = 0 then ?n - 1 else j - 1) = i"
    using assms by (auto simp: j_def)
  moreover have "previousImage m (Number i) = Number k"
    unfolding k_def using pos assms(2,3) by (rule previousImage_wrap)
  moreover have "nextImage m (Number k) = Number (if k = ?n - 1 then 0 else k + 1)"
    using pos k by (rule nextImage_wrap)
  moreover have "(if k = ?n - 1 then 0 else k + 1) = i"
    using assms by (auto simp: k_def)
  ultimately show ?thesis by simp
qed

theorem next_previous_inverse_witness:
  "1 \<le> length (images three_images) \<and> (0::int) \<le> 2 \<and> 2 < int (length (images three_images)) \<and>
   previousImage three_images (nextImage three_images (Number 2)) = Number 2 \<and>
   nextImage three_images (previousImage three_images (Number 2)) = Number 2"
  using next_previous_inverse [of three_images 2]
  by (simp add: three_images_def gallery_of_def)

text \<open>
  C6. With \<open>n \<ge> 1\<close> images and the index \<open>i\<close> on one of them, \<open>nextImage\<close> applied
  \<open>n\<close> times gives \<open>i\<close> back.
\<close>

theorem nextImage_full_cycle:
  assumes "1 \<le> length (images m)" and "0 \<le> i" and "i < int (length (images m))"
  shows "(nextImage m ^^ length (images m)) (Number i) = Number i"
  using assms by (simp add: nextImage_funpow)

theorem nextImage_full_cycle_witness:
  "1 \<le> length (images three_images) \<and> (0::int) \<le> 1 \<and> 1 < int (length (images three_images)) \<and>
   nextImage three_images (nextImage three_images (nextImage three_images (Number 1))) = Number 1"
  using nextImage_full_cycle [of three_images 1]
  by (simp add: three_images_def gallery_of_def numeral_3_eq_3)

section \<open>The promise chain\<close>

lemma getModels_fst: "fst (getModels p v) = Inr ()"
  by (simp add: getModels_def catch_log_def then_setModel_def split: sum.splits)

lemma getModels_snd:
  "snd (getModels p v) =
     (case then_ok p of Inl e \<Rightarrow> console_error e v | Inr m \<Rightarrow> setModel m v)"
  by (simp add: getModels_def catch_log_def then_setModel_def split: sum.splits)

lemma then_ok_loaded: "then_ok (loaded m) = Inr m"
  by (simp add: then_ok_def loaded_def)

lemma step_loaded: "step (FetchSettled (loaded m)) v = setModel m v"
  by (simp add: getModels_snd then_ok_loaded)

text \<open>
  A failed fetch (it rejects, the status is not 2xx, or the body is not JSON) is one whose
  first \<open>.then\<close> ends rejected. The \<open>.catch\<close> then logs the very error the chain was
  rejected with, the chain ends fulfilled, and the page is otherwise as it was before:
  \<open>setModel\<close> has not run, no gallery has been mounted and the same markup is rendered.
\<close>

lemma fetch_failed_rejected: "fetch_failed p \<longleftrightarrow> (\<exists>e. then_ok p = Inl e)"
proof (cases p)
  case (Inl e)
  then show ?thesis by (simp add: fetch_failed_def then_ok_def)
next
  case (Inr r)
  then show ?thesis
    by (cases "ok r") (auto simp: fetch_failed_def then_ok_def split: option.splits)
qed

lemma getModels_rejected:
  assumes "then_ok p = Inl e"
  shows "getModels p v = (Inr (), v\<lparr>console := console v @ [(''Fetch error:'', e)]\<rparr>)"
  using assms by (simp add: getModels_def then_setModel_def catch_log_def console_error_def)

lemma getModels_failed:
  assumes "fetch_failed p"
  shows "fst (getModels p v) = Inr ()"
    and "model (snd (getModels p v)) = model v"
    and "gallery (snd (getModels p v)) = gallery v"
    and "window_keydown (snd (getModels p v)) = window_keydown v"
    and "render_Model base (snd (getModels p v)) = render_Model base v"
proof -
  from assms obtain e where "then_ok p = Inl e"
    by (auto simp: fetch_failed_rejected)
  then have s: "getModels p v = (Inr (), v\<lparr>console := console v @ [(''Fetch error:'', e)]\<rparr>)"
    by (rule getModels_rejected)
  show "fst (getModels p v) = Inr ()"
    and "model (snd (getModels p v)) = model v"
    and "gallery (snd (getModels p v)) = gallery v"
    and "window_keydown (snd (getModels p v)) = window_keydown v"
    and "render_Model base (snd (getModels p v)) = render_Model base v"
    by (simp_all add: s render_Model_def split: option.splits)
qed

text \<open>
  C8 at a failing input. The record with three images is loaded and its second thumbnail
  clicked; the slug changes and the fetch for the new slug fails with a status outside
  2xx. The error is caught and logged, but the page is not without a model: the record
  of the old slug is still in the state cell and its gallery is still rendered. The same
  holds when that fetch rejects or its body is not JSON.
\<close>

theorem failed_refetch_keeps_record:
  "model (run [FetchSettled (loaded three_images), ClickThumbnail 1,
               FetchSettled (Inr \<lparr>ok = False, body = None\<rparr>)] initial_view) =
     Some three_images \<and>
   render_Model ''http://backend''
     (run [FetchSettled (loaded three_images), ClickThumbnail 1,
           FetchSettled (Inr \<lparr>ok = False, body = None\<rparr>)] initial_view) =
     Some \<lparr>main_src = ''http://backend/b.png'',
           thumbnail_srcs = [''http://backend/a.png'', ''http://backend/b.png'',
                             ''http://backend/c.png'']\<rparr> \<and>
   console (run [FetchSettled (loaded three_images), ClickThumbnail 1,
                 FetchSettled (Inr \<lparr>ok = False, body = None\<rparr>)] initial_view) =
     [(''Fetch error:'', Error ''Network response was not ok'')] \<and>
   model (run [FetchSettled (loaded three_images), ClickThumbnail 1,
               FetchSettled (Inl TypeError)] initial_view) = Some three_images \<and>
   model (run [FetchSettled (loaded three_images), ClickThumbnail 1,
               FetchSettled (Inr \<lparr>ok = True, body = None\<rparr>)] initial_view) =
     Some three_images"
  by code_simp

section \<open>Replacing the model record\<close>

text \<open>
  C7 at a failing input. The record with three images is loaded and its third thumbnail
  clicked; then the record with one image is loaded. The index is not reset: it is still
  2, which the new record does not have, and the main image is rendered from
  \<open>model.images[2]\<close>, which is \<open>undefined\<close>.
\<close>

theorem model_change_keeps_index:
  "model (run [FetchSettled (loaded three_images), ClickThumbnail 2,
               FetchSettled (loaded one_image)] initial_view) = Some one_image \<and>
   map_option selectedImage
     (gallery (run [FetchSettled (loaded three_images), ClickThumbnail 2,
                    FetchSettled (loaded one_image)] initial_view)) = Some (Number 2) \<and>
   render_Model ''http://backend''
     (run [FetchSettled (loaded three_images), ClickThumbnail 2,
           FetchSettled (loaded one_image)] initial_view) =
     Some \<lparr>main_src = ''http://backendundefined'', thumbnail_srcs = [''http://backend/z.png'']\<rparr>"
  by code_simp

text \<open>
  The two branches of \<open>setModel\<close> on a mounted page: the first record mounts the gallery
  with index 0, a later record leaves the mounted gallery as it is.
\<close>

lemma setModel_gallery:
  assumes "mounted v"
  shows "model (setModel m v) = Some m \<and>
         (case gallery v of
            None \<Rightarrow> map_option selectedImage (gallery (setModel m v)) = Some (Number 0)
          | Some g \<Rightarrow> gallery (setModel m v) = Some g)"
  using assms by (simp add: setModel_def mount_gallery_def Let_def split: option.splits)

section \<open>The keydown listener of a mounted gallery\<close>

lemma listening_mount: "listening m (setModel m initial_view)"
  by (simp add: listening_def setModel_def initial_view_def mount_gallery_def Let_def)

lemma listening_setModel: "listening m0 v \<Longrightarrow> listening m0 (setModel m v)"
  by (auto simp: listening_def setModel_def split: option.splits)

lemma listening_console_error: "listening m0 v \<Longrightarrow> listening m0 (console_error e v)"
  by (auto simp: listening_def console_error_def split: option.splits)

lemma listening_setSelectedImage: "listening m0 v \<Longrightarrow> listening m0 (setSelectedImage f v)"
  by (auto simp: listening_def setSelectedImage_def split: option.splits)

lemma key_down_listening:
  assumes "listening m0 v" and "gallery v = Some g"
  shows "key_down key v = setSelectedImage (handleKeyDown (keydown_handler g) key) v"
  using assms by (simp add: listening_def key_down_def run_listener_def)

lemma listening_step:
  assumes "listening m0 v" and "e \<noteq> Unmount"
  shows "listening m0 (step e v)"
proof (cases e)
  case (FetchSettled p)
  then show ?thesis using assms(1)
    by (simp add: getModels_snd listening_setModel listening_console_error split: sum.splits)
next
  case ClickNext
  then show ?thesis using assms(1)
    by (simp add: click_next_def listening_setSelectedImage split: option.splits)
next
  case ClickPrevious
  then show ?thesis using assms(1)
    by (simp add: click_previous_def listening_setSelectedImage split: option.splits)
next
  case (ClickThumbnail k)
  then show ?thesis using assms(1)
    by (simp add: click_thumbnail_def listening_setSelectedImage split: option.splits)
next
  case (KeyDown key)
  from assms(1) obtain g where g: "gallery v = Some g"
    by (auto simp: listening_def split: option.splits)
  show ?thesis using KeyDown assms(1)
    by (simp add: key_down_listening [OF assms(1) g] listening_setSelectedImage)
next
  case Unmount
  then show ?thesis using assms(2) by simp
qed

lemma listening_run:
  "listening m0 v \<Longrightarrow> Unmount \<notin> set evs \<Longrightarrow> listening m0 (run evs v)"
  unfolding run_def
  by (induction evs arbitrary: v) (auto simp: listening_step)

text \<open>
  What holds of the keyboard scenario: as long as the gallery shows the record it was
  mounted with, an arrow key does what the button does, and the cleanup at unmount leaves
  no listener behind, so that a later key changes nothing.
\<close>

lemma key_down_as_click:
  assumes "listening m v" and "model v = Some m"
  shows "step (KeyDown ''ArrowRight'') v = step ClickNext v"
    and "step (KeyDown ''ArrowLeft'') v = step ClickPrevious v"
proof -
  from assms(1) obtain g where g: "gallery v = Some g"
    and c: "closure_model (keydown_handler g) = m"
    by (auto simp: listening_def split: option.splits)
  have h: "handleKeyDown (keydown_handler g) ''ArrowRight'' = nextImage m"
    "handleKeyDown (keydown_handler g) ''ArrowLeft'' = previousImage m"
    using c by (auto simp: handleKeyDown_def)
  show "step (KeyDown ''ArrowRight'') v = step ClickNext v"
    using assms(2) by (simp add: key_down_listening [OF assms(1) g] h click_next_def)
  show "step (KeyDown ''ArrowLeft'') v = step ClickPrevious v"
    using assms(2) by (simp add: key_down_listening [OF assms(1) g] h click_previous_def)
qed

lemma unmount_deregisters:
  assumes "listening m v"
  shows "window_keydown (step Unmount v) = []"
    and "step (KeyDown key) (step Unmount v) = step Unmount v"
proof -
  show w: "window_keydown (step Unmount v) = []"
    using assms by (auto simp: listening_def unmount_def split: option.splits)
  then show "step (KeyDown key) (step Unmount v) = step Unmount v"
    by (simp add: key_down_def)
qed

text \<open>
  C10. The keydown listener is registered once, at mount, and keeps the \<open>model\<close> of
  that render. After a gallery has been mounted with the record \<open>m0\<close> and, with any
  events but an unmount in between, the page has loaded the record \<open>m1\<close>, the arrow keys
  still move the index with \<open>m0\<close>'s image count, while the two buttons use \<open>m1\<close>'s.
\<close>

theorem key_handler_keeps_mount_model:
  assumes "Unmount \<notin> set evs"
    and "v = step (FetchSettled (loaded m1))
               (run evs (step (FetchSettled (loaded m0)) initial_view))"
  shows "\<exists>g. model v = Some m1 \<and> gallery v = Some g \<and>
             gallery (step (KeyDown ''ArrowRight'') v) =
               Some (g\<lparr>selectedImage := nextImage m0 (selectedImage g)\<rparr>) \<and>
             gallery (step (KeyDown ''ArrowLeft'') v) =
               Some (g\<lparr>selectedImage := previousImage m0 (selectedImage g)\<rparr>) \<and>
             gallery (step ClickNext v) =
               Some (g\<lparr>selectedImage := nextImage m1 (selectedImage g)\<rparr>) \<and>
             gallery (step ClickPrevious v) =
               Some (g\<lparr>selectedImage := previousImage m1 (selectedImage g)\<rparr>)"
proof -
  let ?u = "run evs (step (FetchSettled (loaded m0)) initial_view)"
  have u: "listening m0 ?u"
    unfolding step_loaded using listening_mount assms(1) by (rule listening_run)
  have v: "v = setModel m1 ?u" using assms(2) by (simp only: step_loaded)
  then have l: "listening m0 v" using u by (simp only: listening_setModel)
  then obtain g where g: "gallery v = Some g"
    by (auto simp: listening_def split: option.splits)
  have c: "closure_model (keydown_handler g) = m0" using l g by (simp add: listening_def)
  have m: "model v = Some m1"
    using u unfolding v by (auto simp: listening_def setModel_def split: option.splits)
  have "step (KeyDown key) v = setSelectedImage (handleKeyDown (keydown_handler g) key) v" for key
    using key_down_listening [OF l g] by simp
  then show ?thesis using g m c
    by (simp add: handleKeyDown_def setSelectedImage_def click_next_def click_previous_def)
qed

theorem key_handler_keeps_mount_model_witness:
  "Unmount \<notin> set [ClickThumbnail 2] \<and>
   map_option selectedImage
     (gallery (step (KeyDown ''ArrowRight'')
        (step (FetchSettled (loaded five_images))
           (run [ClickThumbnail 2] (step (FetchSettled (loaded three_images)) initial_view))))) =
     Some (Number 0)"
proof -
  let ?v = "step (FetchSettled (loaded five_images))
              (run [ClickThumbnail 2] (step (FetchSettled (loaded three_images)) initial_view))"
  have a: "Unmount \<notin> set [ClickThumbnail 2]" by simp
  have sel: "map_option selectedImage (gallery ?v) = Some (Number 2)" by code_simp
  have n: "nextImage three_images (Number 2) = Number 0" by code_simp
  from key_handler_keeps_mount_model [OF a refl, of five_images three_images]
  obtain g where g: "gallery ?v = Some g"
    and k: "gallery (step (KeyDown ''ArrowRight'') ?v) =
            Some (g\<lparr>selectedImage := nextImage three_images (selectedImage g)\<rparr>)"
    by blast
  have "selectedImage g = Number 2" using sel g by simp
  then show ?thesis using a k n by simp
qed

text \<open>
  C9 at a failing input. The record with three images is loaded, its third thumbnail is
  clicked, and the record with five images is loaded; the gallery stays mounted. The key
  ArrowRight now sets the index to \<open>(2 + 1) % 3 = 0\<close>, the next-button sets it to
  \<open>(2 + 1) % 5 = 3\<close>.
\<close>

theorem arrow_key_differs_from_button:
  "map_option selectedImage
     (gallery (step (KeyDown ''ArrowRight'')
        (run [FetchSettled (loaded three_images), ClickThumbnail 2,
              FetchSettled (loaded five_images)] initial_view))) = Some (Number 0) \<and>
   map_option selectedImage
     (gallery (step ClickNext
        (run [FetchSettled (loaded three_images), ClickThumbnail 2,
              FetchSettled (loaded five_images)] initial_view))) = Some (Number 3)"
  by code_simp

section \<open>The index stays in range\<close>

lemma showing_setSelectedImage:
  assumes "showing m v" and "\<And>sel. valid_index m sel \<Longrightarrow> valid_index m (f sel)"
  shows "showing m (setSelectedImage f v)"
proof -
  from assms(1) obtain g where g: "gallery v = Some g" and ok: "valid_index m (selectedImage g)"
    by (auto simp: showing_def split: option.splits)
  have "listening m (setSelectedImage f v)"
    using assms(1) by (simp add: showing_def listening_setSelectedImage)
  moreover have "model (setSelectedImage f v) = Some m"
    using assms(1) g by (simp add: showing_def setSelectedImage_def)
  moreover have "gallery (setSelectedImage f v) = Some (g\<lparr>selectedImage := f (selectedImage g)\<rparr>)"
    using g by (simp add: setSelectedImage_def)
  ultimately show ?thesis using assms(2) [OF ok] by (simp add: showing_def)
qed

lemma showing_step:
  assumes "showing m v" and "is_selection e"
  shows "showing m (step e v)"
proof (cases e)
  case ClickNext
  then show ?thesis using assms(1)
    by (simp add: click_next_def showing_def [of m v] showing_setSelectedImage [OF assms(1)]
        valid_index_nextImage)
next
  case ClickPrevious
  then show ?thesis using assms(1)
    by (simp add: click_previous_def showing_def [of m v] showing_setSelectedImage [OF assms(1)]
        valid_index_previousImage)
next
  case (ClickThumbnail k)
  have "k < length (images m) \<Longrightarrow> showing m (setSelectedImage (\<lambda>_. Number (int k)) v)"
    using assms(1) by (rule showing_setSelectedImage) (simp add: valid_index_def)
  then show ?thesis using ClickThumbnail assms(1)
    by (simp add: click_thumbnail_def showing_def [of m v])
next
  case (KeyDown key)
  from assms(1) obtain g where g: "gallery v = Some g" and l: "listening m v"
    by (auto simp: showing_def split: option.splits)
  have c: "closure_model (keydown_handler g) = m"
    using l g by (simp add: listening_def)
  have "showing m (setSelectedImage (handleKeyDown (keydown_handler g) key) v)"
    using assms(1) by (rule showing_setSelectedImage) (rule valid_index_handleKeyDown [OF c])
  then show ?thesis using KeyDown by (simp add: key_down_listening [OF l g])
next
  case (FetchSettled p)
  then show ?thesis using assms(2) by simp
next
  case Unmount
  then show ?thesis using assms(2) by simp
qed

lemma showing_run:
  "showing m v \<Longrightarrow> \<forall>e\<in>set evs. is_selection e \<Longrightarrow> showing m (run evs v)"
  unfolding run_def
  by (induction evs arbitrary: v) (auto simp: showing_step)

lemma showing_mount:
  assumes "1 \<le> length (images m)"
  shows "showing m (setModel m initial_view)"
proof -
  have "gallery (setModel m initial_view) =
        Some \<lparr>selectedImage = Number 0, keydown_handler = \<lparr>listener_id = 0, closure_model = m\<rparr>\<rparr>"
    and "model (setModel m initial_view) = Some m"
    by (simp_all add: setModel_def initial_view_def mount_gallery_def Let_def)
  moreover have "0 < int (length (images m))" using assms by linarith
  ultimately show ?thesis using listening_mount [of m]
    by (simp add: showing_def valid_index_Number)
qed

text \<open>
  C1. A record with \<open>n \<ge> 1\<close> images is loaded into a fresh page, which mounts the
  gallery with index 0. After any finite sequence of clicks on the next-button, the
  previous-button and the thumbnails and of key presses, the index is a number in
  \<open>[0, n)\<close>.
\<close>

theorem selectedImage_in_range:
  assumes "1 \<le> length (images m)" and "\<forall>e\<in>set evs. is_selection e"
  shows "\<exists>g i. gallery (run evs (step (FetchSettled (loaded m)) initial_view)) = Some g \<and>
               selectedImage g = Number i \<and> 0 \<le> i \<and> i < int (length (images m))"
proof -
  have "showing m (run evs (step (FetchSettled (loaded m)) initial_view))"
    unfolding step_loaded using showing_mount [OF assms(1)] assms(2) by (rule showing_run)
  then show ?thesis
    by (auto simp: showing_def valid_index_def split: option.splits jsnum.splits)
qed

theorem selectedImage_in_range_witness:
  "1 \<le> length (images three_images) \<and>
   list_all is_selection
     [ClickPrevious, KeyDown ''ArrowRight'', ClickThumbnail 1, ClickNext, ClickNext] \<and>
   (\<exists>g i. gallery (run [ClickPrevious, KeyDown ''ArrowRight'', ClickThumbnail 1, ClickNext, ClickNext]
                     (step (FetchSettled (loaded three_images)) initial_view)) = Some g \<and>
          selectedImage g = Number i \<and> 0 \<le> i \<and> i < int (length (images three_images)))"
proof -
  have a: "1 \<le> length (images three_images)"
    by (simp add: three_images_def gallery_of_def)
  have b: "\<forall>e\<in>set [ClickPrevious, KeyDown ''ArrowRight'', ClickThumbnail 1, ClickNext, ClickNext].
             is_selection e"
    by simp
  have c: "list_all is_selection
             [ClickPrevious, KeyDown ''ArrowRight'', ClickThumbnail 1, ClickNext, ClickNext]"
    by simp
  show ?thesis using selectedImage_in_range [OF a b] a c by blast
qed

text \<open>
  The scenario of the specification: images \<open>[A, B, C]\<close>, index 0; next, next, next give
  1, 2, 0, and previous from 0 gives 2.
\<close>

lemma gallery_scenario:
  "map (\<lambda>evs. map_option selectedImage
                (gallery (run evs (step (FetchSettled (loaded three_images)) initial_view))))
     [[], [ClickNext], [ClickNext, ClickNext], [ClickNext, ClickNext, ClickNext], [ClickPrevious]] =
   [Some (Number 0), Some (Number 1), Some (Number 2), Some (Number 0), Some (Number 2)]"
  by code_simp

section \<open>A record without images\<close>

text \<open>
  C4 at a failing input. A record whose \<open>images\<close> is the empty array is loaded. The
  gallery is mounted and its buttons and listener are there; the next-button, the
  previous-button and the arrow key each take \<open>%\<close> by 0 and store \<open>NaN\<close> as the index,
  and the main image is rendered from \<open>model.images[0]\<close>, which is \<open>undefined\<close>.
\<close>

theorem empty_gallery_unguarded:
  "map_option selectedImage
     (gallery (run [FetchSettled (loaded no_images), ClickNext] initial_view)) = Some NaN \<and>
   map_option selectedImage
     (gallery (run [FetchSettled (loaded no_images), ClickPrevious] initial_view)) = Some NaN \<and>
   map_option selectedImage
     (gallery (run [FetchSettled (loaded no_images), KeyDown ''ArrowRight''] initial_view)) =
     Some NaN \<and>
   render_Model ''http://backend'' (run [FetchSettled (loaded no_images)] initial_view) =
     Some \<lparr>main_src = ''http://backendundefined'', thumbnail_srcs = []\<rparr>"
  by code_simp

end
